theory Spec2Isabelle
  imports Main "HOL-Library.Sublist" "HOL-Library.List_Lexorder"
begin

section \<open>Canonical forms under a range of permutations (HasCanonicalForm\_impl.hh)\<close>

text \<open>
  The engine is a set of member templates of \<open>ConfigCanonicalForm<Base>\<close>. The object
  they are called on is \<open>derived()\<close>; the range \<open>[begin, end)\<close> of \<open>PermuteIterator\<close> is the
  list of the actions between \<open>begin\<close> and \<open>end\<close>.
  What the object brings with it lives in headers that are not part of the sources at
  hand (ConfigCompare.hh, ConfigIsEquivalent.hh, PermuteIterator.hh), so it is taken as
  a parameter: applying an action, the order and the equality of objects, and the
  inverse of an action.
\<close>

record ('a, 'o) object_ops =
  copy_apply :: "'a \<Rightarrow> 'o \<Rightarrow> 'o"
  obj_lt :: "'o \<Rightarrow> 'o \<Rightarrow> bool"
  obj_eq :: "'o \<Rightarrow> 'o \<Rightarrow> bool"
  inverse_op :: "'a \<Rightarrow> 'a"

text \<open>
  Modelled from the spec: the functor \<open>derived().less()\<close> (ConfigCompare, not under src/).
  Called with one action it answers "object < action applied to object"; called with
  two actions, as \<open>std::max_element\<close> does, it compares the two images.
\<close>

definition less_unary :: "('a, 'o) object_ops \<Rightarrow> 'o \<Rightarrow> 'a \<Rightarrow> bool" where
  "less_unary X obj a = obj_lt X obj (copy_apply X a obj)"

definition less_binary :: "('a, 'o) object_ops \<Rightarrow> 'o \<Rightarrow> 'a \<Rightarrow> 'a \<Rightarrow> bool" where
  "less_binary X obj a b = obj_lt X (copy_apply X a obj) (copy_apply X b obj)"

text \<open>
  Modelled from the spec: the functor \<open>derived().equal_to()\<close> (ConfigIsEquivalent, not
  under src/): "object equals action applied to object".
\<close>

definition equal_to :: "('a, 'o) object_ops \<Rightarrow> 'o \<Rightarrow> 'a \<Rightarrow> bool" where
  "equal_to X obj a = obj_eq X obj (copy_apply X a obj)"

subsection \<open>The three standard algorithms, as the loops they are\<close>

text \<open>\<open>std::none_of\<close>: stops with false at the first element satisfying the predicate.\<close>

fun none_of :: "('a \<Rightarrow> bool) \<Rightarrow> 'a list \<Rightarrow> bool" where
  "none_of p [] = True"
| "none_of p (x # xs) = (if p x then False else none_of p xs)"

text \<open>
  \<open>std::max_element\<close>: \<open>largest\<close> starts at \<open>first\<close> and moves to a later position only
  when \<open>comp(*largest, *first)\<close> holds. The state of the scan is the position and value
  of \<open>largest\<close> and the position \<open>first\<close>; an empty range returns \<open>last\<close>.
\<close>

fun max_scan :: "('a \<Rightarrow> 'a \<Rightarrow> bool) \<Rightarrow> nat \<times> 'a \<Rightarrow> nat \<Rightarrow> 'a list \<Rightarrow> nat" where
  "max_scan cmp largest first [] = fst largest"
| "max_scan cmp largest first (x # rest) =
     (if cmp (snd largest) x then max_scan cmp (first, x) (Suc first) rest
      else max_scan cmp largest (Suc first) rest)"

definition max_element :: "('a \<Rightarrow> 'a \<Rightarrow> bool) \<Rightarrow> 'a list \<Rightarrow> nat" where
  "max_element cmp xs =
     (case xs of [] \<Rightarrow> length xs | x # rest \<Rightarrow> max_scan cmp (0, x) 1 rest)"

text \<open>\<open>std::copy_if\<close> into a \<open>std::back_inserter\<close>: each accepted element is pushed back.\<close>

fun copy_if :: "('a \<Rightarrow> bool) \<Rightarrow> 'a list \<Rightarrow> 'a list \<Rightarrow> 'a list" where
  "copy_if p [] out = out"
| "copy_if p (x # xs) out = (if p x then copy_if p xs (out @ [x]) else copy_if p xs out)"

subsection \<open>Errors\<close>

datatype error =
  PastTheEnd       \<comment> \<open>the end of the permutation table, where no permutation stands\<close>
| NoReturnValue    \<comment> \<open>control flowed off the end of a function that returns a value\<close>
| StorageError     \<comment> \<open>a store's commit() failed\<close>

text \<open>
  A \<open>PermuteIterator\<close> is its own iterator: a position in the permutation table of its
  supercell, which runs from \<open>permute_begin()\<close> to \<open>permute_end()\<close>. Positions are counted
  from \<open>begin\<close>, so \<open>end\<close> is the length of the range, and the table from \<open>begin\<close> on is
  the range followed by the permutations that stand behind \<open>end\<close>, called \<open>rest\<close> below.
  Applying or inverting a \<open>PermuteIterator\<close> reads the permutation at its position
  (PermuteIterator.hh, not under src/); at the end of the table there is none.
\<close>

definition permutation_at :: "'a list \<Rightarrow> nat \<Rightarrow> error + 'a" where
  "permutation_at table it = (if it < length table then Inr (table ! it) else Inl PastTheEnd)"

subsection \<open>ConfigCanonicalForm: the overloads taking a plain range\<close>

definition is_canonical :: "('a, 'o) object_ops \<Rightarrow> 'o \<Rightarrow> 'a list \<Rightarrow> bool" where
  "is_canonical X obj A = none_of (less_unary X obj) A"

text \<open>\<open>to_canonical\<close> returns the iterator \<open>std::max_element\<close> yields, as it is.\<close>

definition to_canonical :: "('a, 'o) object_ops \<Rightarrow> 'o \<Rightarrow> 'a list \<Rightarrow> nat" where
  "to_canonical X obj A = max_element (less_binary X obj) A"

definition canonical_form ::
  "('a, 'o) object_ops \<Rightarrow> 'o \<Rightarrow> 'a list \<Rightarrow> 'a list \<Rightarrow> error + 'o" where
  "canonical_form X obj A rest =
     (case permutation_at (A @ rest) (to_canonical X obj A) of
        Inl e \<Rightarrow> Inl e
      | Inr a \<Rightarrow> Inr (copy_apply X a obj))"

definition from_canonical ::
  "('a, 'o) object_ops \<Rightarrow> 'o \<Rightarrow> 'a list \<Rightarrow> 'a list \<Rightarrow> error + 'a" where
  "from_canonical X obj A rest =
     (case permutation_at (A @ rest) (to_canonical X obj A) of
        Inl e \<Rightarrow> Inl e
      | Inr a \<Rightarrow> Inr (inverse_op X a))"

definition invariant_subgroup :: "('a, 'o) object_ops \<Rightarrow> 'o \<Rightarrow> 'a list \<Rightarrow> 'a list" where
  "invariant_subgroup X obj A = copy_if (equal_to X obj) A []"

subsection \<open>The precondition on the order\<close>

text \<open>
  \<open>std::max_element\<close> expects a strict weak ordering: irreflexive, transitive, and with
  transitive incomparability.
\<close>

definition strict_weak_order :: "('o \<Rightarrow> 'o \<Rightarrow> bool) \<Rightarrow> bool" where
  "strict_weak_order lt \<longleftrightarrow>
     (\<forall>x. \<not> lt x x) \<and>
     (\<forall>x y z. lt x y \<and> lt y z \<longrightarrow> lt x z) \<and>
     (\<forall>x y z. \<not> lt x y \<and> \<not> lt y z \<longrightarrow> \<not> lt x z)"

subsection \<open>An instance to compute with: occupation vectors and site permutations\<close>

text \<open>
  A configuration is the list of its site occupations, an action is a permutation of
  the sites written as the list of source positions, and configurations are ordered
  lexicographically.
\<close>

definition permute :: "nat list \<Rightarrow> nat list \<Rightarrow> nat list" where
  "permute p c = map (\<lambda>i. c ! i) p"

definition inverse_perm :: "nat list \<Rightarrow> nat list" where
  "inverse_perm p = map (\<lambda>i. length (takeWhile (\<lambda>j. j \<noteq> i) p)) [0..<length p]"

definition perm_ops :: "(nat list, nat list) object_ops" where
  "perm_ops = \<lparr>copy_apply = permute, obj_lt = (<), obj_eq = (=), inverse_op = inverse_perm\<rparr>"

subsection \<open>CanonicalForm: the overloads taking a symmetry group or a supercell and a range\<close>

text \<open>
  The functors of OrbitGeneration.hh and ScelOrbitGeneration.hh are not under src/, so
  what they compute is a parameter. A functor is built from the group and comparator,
  or from the supercell alone, and then called: as \<open>f(e)\<close> it is handed the element only,
  as \<open>f(e, begin, end)\<close> it is handed the range as well. A generator returns the canonical
  element and remembers the operation that led to it (\<open>f.to_canonical()\<close>).
\<close>

record ('g, 'cmp, 'scel, 'a, 'o, 'op) orbit_generation =
  CanonicalGenerator :: "'g \<Rightarrow> 'cmp \<Rightarrow> 'o \<Rightarrow> 'o \<times> 'op"
  ScelIsCanonical :: "'scel \<Rightarrow> 'o \<Rightarrow> bool"
  ScelCanonicalGenerator :: "'scel \<Rightarrow> 'o \<Rightarrow> 'o \<times> 'op"
  ScelCanonicalGenerator_range :: "'scel \<Rightarrow> 'o \<Rightarrow> 'a list \<Rightarrow> 'o \<times> 'op"
  sym_compare_equal :: "'scel \<Rightarrow> 'o \<Rightarrow> 'o \<Rightarrow> bool"
  SymOp_inverse :: "'op \<Rightarrow> 'op"

definition to_canonical_grp ::
  "('g, 'cmp, 'scel, 'a, 'o, 'op) orbit_generation \<Rightarrow> 'o \<Rightarrow> 'g \<Rightarrow> 'cmp \<Rightarrow> 'op" where
  "to_canonical_grp G obj g sym_compare = snd (CanonicalGenerator G g sym_compare obj)"

definition from_canonical_grp ::
  "('g, 'cmp, 'scel, 'a, 'o, 'op) orbit_generation \<Rightarrow> 'o \<Rightarrow> 'g \<Rightarrow> 'cmp \<Rightarrow> 'op" where
  "from_canonical_grp G obj g sym_compare = SymOp_inverse G (to_canonical_grp G obj g sym_compare)"

definition is_canonical_scel ::
  "('g, 'cmp, 'scel, 'a, 'o, 'op) orbit_generation \<Rightarrow> 'o \<Rightarrow> 'scel \<Rightarrow> 'a list \<Rightarrow> bool" where
  "is_canonical_scel G obj scel A = ScelIsCanonical G scel obj"

definition canonical_form_scel ::
  "('g, 'cmp, 'scel, 'a, 'o, 'op) orbit_generation \<Rightarrow> 'o \<Rightarrow> 'scel \<Rightarrow> 'a list \<Rightarrow> 'o" where
  "canonical_form_scel G obj scel A = fst (ScelCanonicalGenerator G scel obj)"

definition is_equivalent_scel ::
  "('g, 'cmp, 'scel, 'a, 'o, 'op) orbit_generation \<Rightarrow> 'o \<Rightarrow> 'o \<Rightarrow> 'scel \<Rightarrow> 'a list \<Rightarrow> bool" where
  "is_equivalent_scel G obj B scel A =
     sym_compare_equal G scel (fst (ScelCanonicalGenerator_range G scel obj A))
       (fst (ScelCanonicalGenerator_range G scel B A))"

definition to_canonical_scel ::
  "('g, 'cmp, 'scel, 'a, 'o, 'op) orbit_generation \<Rightarrow> 'o \<Rightarrow> 'scel \<Rightarrow> 'a list \<Rightarrow> 'op" where
  "to_canonical_scel G obj scel A = snd (ScelCanonicalGenerator G scel obj)"

text \<open>
  The body of this overload is the expression statement
  \<open>to_canonical(scel, begin, end).inverse();\<close> and nothing else: the inverse is computed
  and dropped, and control reaches the closing brace of a function returning \<open>SymOp\<close>.
\<close>

definition from_canonical_scel ::
  "('g, 'cmp, 'scel, 'a, 'o, 'op) orbit_generation \<Rightarrow> 'o \<Rightarrow> 'scel \<Rightarrow> 'a list \<Rightarrow> error + 'op" where
  "from_canonical_scel G obj scel A =
     (let dropped = SymOp_inverse G (to_canonical_scel G obj scel A) in Inl NoReturnValue)"

section \<open>The two stores\<close>

text \<open>
  Modelled from the spec: the persistent store \<open>DB::Database<T>\<close> (casm/database, not under
  src/): a deduplicating container with \<open>size()\<close>, \<open>insert(value) -> (handle, was_new)\<close>
  and \<open>commit()\<close>, which fails with a storage error when the durable write fails.
  \<open>entries\<close> is what the store holds in memory, in insertion order; \<open>durable\<close> is what the
  last successful commit wrote; \<open>writable\<close> says whether a durable write succeeds. The
  handle of an entry is the entry. \<open>Index\<close> is a signed integer type.
\<close>

record 'v database =
  entries :: "'v list"
  durable :: "'v list"
  writable :: bool

definition db_size :: "'v database \<Rightarrow> int" where
  "db_size db = int (length (entries db))"

definition db_insert :: "'v \<Rightarrow> 'v database \<Rightarrow> ('v \<times> bool) \<times> 'v database" where
  "db_insert v db =
     (if v \<in> set (entries db) then ((v, False), db)
      else ((v, True), db\<lparr>entries := entries db @ [v]\<rparr>))"

definition db_commit :: "'v database \<Rightarrow> error + 'v database" where
  "db_commit db = (if writable db then Inr (db\<lparr>durable := entries db\<rparr>) else Inl StorageError)"

text \<open>The databases a project holds (\<open>primclex.db<Supercell>()\<close>, \<open>primclex.db<Configuration>()\<close>).\<close>

record ('c, 's) stores =
  supercell_db :: "'s database"
  configuration_db :: "'c database"

section \<open>Calls of the canonical-form member functions\<close>

text \<open>
  A call of a member function happens in a state: the object it is called on and the
  stores of the project. A \<open>const\<close> member function whose body reaches neither a
  \<open>mutable\<close> member nor a store computes its value from the object and leaves the state.
\<close>

definition const_call :: "('obj \<Rightarrow> 'r) \<Rightarrow> 'obj \<times> 'w \<Rightarrow> 'r \<times> 'obj \<times> 'w" where
  "const_call f st = (f (fst st), st)"

datatype member = IsCanonical | CanonicalForm | ToCanonical | FromCanonical | InvariantSubgroup

datatype ('op, 'p, 'o) answer =
  Truth bool
| Form "error + 'o"
| Iterator nat
| Oper "error + 'op"
| Group "'p list"

text \<open>The members of \<open>ConfigCanonicalForm\<close> taking a range (lines 182 to 215), all \<open>const\<close>.\<close>

fun Configuration_call ::
  "('a, 'o) object_ops \<Rightarrow> 'a list \<Rightarrow> 'a list \<Rightarrow> member \<Rightarrow> 'o \<times> ('c, 's) stores \<Rightarrow>
   ('a, 'a, 'o) answer \<times> 'o \<times> ('c, 's) stores" where
  "Configuration_call X A rest IsCanonical st =
     const_call (\<lambda>obj. Truth (is_canonical X obj A)) st"
| "Configuration_call X A rest CanonicalForm st =
     const_call (\<lambda>obj. Form (canonical_form X obj A rest)) st"
| "Configuration_call X A rest ToCanonical st =
     const_call (\<lambda>obj. Iterator (to_canonical X obj A)) st"
| "Configuration_call X A rest FromCanonical st =
     const_call (\<lambda>obj. Oper (from_canonical X obj A rest)) st"
| "Configuration_call X A rest InvariantSubgroup st =
     const_call (\<lambda>obj. Group (invariant_subgroup X obj A)) st"

text \<open>
  A supercell carries the \<open>mutable\<close> member \<open>m_canonical\<close>, a pointer to its canonical
  equivalent in the supercell database, null until first asked for.
\<close>

record 's Supercell =
  cell :: 's
  m_canonical :: "'s option"

text \<open>
  What the members of \<open>SupercellCanonicalForm\<close> call is not under src/ and is a parameter:
  the three functions of the supercell's lattice (each called with the point group of
  the prim and the tolerance, both read from the supercell), \<open>make_invariant_subgroup\<close>
  (called with \<open>derived()\<close> from \<open>const\<close> members at lines 72 and 137, and here), and
  \<open>Supercell::insert()\<close>, which is given the stores and returns a pair of an entry and a
  flag together with the stores as it leaves them.
\<close>

record ('s, 'op, 'b, 'p, 'c) Supercell_ops =
  lattice_is_canonical :: "'s \<Rightarrow> bool"
  lattice_to_canonical :: "'s \<Rightarrow> 'op"
  lattice_from_canonical :: "'s \<Rightarrow> 'op"
  make_invariant_subgroup :: "'s \<Rightarrow> 'b \<Rightarrow> 'p list \<Rightarrow> 'p list"
  Supercell_insert :: "'s Supercell \<Rightarrow> ('c, 's) stores \<Rightarrow> ('s \<times> bool) \<times> ('c, 's) stores"

text \<open>
  \<open>SupercellCanonicalForm::canonical_form()\<close>: when \<open>m_canonical\<close> is null it is set to
  the address of the entry \<open>derived().insert().first\<close> points to; the entry is returned.
\<close>

definition Supercell_canonical_form ::
  "('s, 'op, 'b, 'p, 'c) Supercell_ops \<Rightarrow> 's Supercell \<times> ('c, 's) stores \<Rightarrow>
   's \<times> 's Supercell \<times> ('c, 's) stores" where
  "Supercell_canonical_form S st =
     (case st of (scel, w) \<Rightarrow>
       (case m_canonical scel of
          None \<Rightarrow>
            (let (res, w') = Supercell_insert S scel w
             in (fst res, scel\<lparr>m_canonical := Some (fst res)\<rparr>, w'))
        | Some p \<Rightarrow> (p, scel, w)))"

text \<open>The members of \<open>SupercellCanonicalForm\<close> (lines 220 to 263).\<close>

fun Supercell_call ::
  "('s, 'op, 'b, 'p, 'c) Supercell_ops \<Rightarrow> 'b \<Rightarrow> 'p list \<Rightarrow> member \<Rightarrow>
   's Supercell \<times> ('c, 's) stores \<Rightarrow> ('op, 'p, 's) answer \<times> 's Supercell \<times> ('c, 's) stores" where
  "Supercell_call S scel_B A IsCanonical st =
     const_call (\<lambda>scel. Truth (lattice_is_canonical S (cell scel))) st"
| "Supercell_call S scel_B A ToCanonical st =
     const_call (\<lambda>scel. Oper (Inr (lattice_to_canonical S (cell scel)))) st"
| "Supercell_call S scel_B A FromCanonical st =
     const_call (\<lambda>scel. Oper (Inr (lattice_from_canonical S (cell scel)))) st"
| "Supercell_call S scel_B A CanonicalForm st =
     (case Supercell_canonical_form S st of (p, st') \<Rightarrow> (Form (Inr p), st'))"
| "Supercell_call S scel_B A InvariantSubgroup st =
     const_call (\<lambda>scel. Group (make_invariant_subgroup S (cell scel) scel_B A)) st"

text \<open>
  An instance to compute with: a supercell whose \<open>insert()\<close> finds its cell registered
  and leaves the stores.
\<close>

definition registered_cell_ops :: "(nat, nat list, unit, nat list, nat \<times> nat list) Supercell_ops" where
  "registered_cell_ops =
     \<lparr>lattice_is_canonical = (\<lambda>c. True), lattice_to_canonical = (\<lambda>c. []),
      lattice_from_canonical = (\<lambda>c. []), make_invariant_subgroup = (\<lambda>c b A. A),
      Supercell_insert = (\<lambda>scel w. ((cell scel, False), w))\<rparr>"

section \<open>The enumeration pipeline (enumerate\_configurations\_impl.hh)\<close>

text \<open>
  What a \<open>Configuration\<close> offers is not under src/ and is a parameter: its supercell,
  whether that supercell knows its project, giving it the project
  (\<open>options.primclex_ptr\<close>), and the two canonical forms \<open>make_canonical_and_insert\<close> uses.
\<close>

record ('c, 's) config_ops =
  supercell_of :: "'c \<Rightarrow> 's"
  has_primclex :: "'c \<Rightarrow> bool"
  set_primclex :: "'c \<Rightarrow> 'c"
  primitive_canonical :: "'c \<Rightarrow> 'c"
  non_primitive_canonical :: "'c \<Rightarrow> 'c"

text \<open>
  An enumerator is the finite sequence of configurations the range-for consumes,
  together with the answer of \<open>is_guaranteed_for_database_insert(enumerator)\<close>.
\<close>

record 'c Enumerator =
  configurations :: "'c list"
  is_guaranteed_for_database_insert :: bool

text \<open>
  The options the function reads: \<open>filter\<close> is a \<open>std::function\<close> that may be empty;
  \<open>verbosity\<close> and \<open>method_name\<close> only format the log.
\<close>

record 'c EnumerateConfigurationsOptions =
  filter_f :: "('c \<Rightarrow> bool) option"
  primitive_only :: bool
  dry_run :: bool

text \<open>
  What the function writes to the log, in order, with the two commit calls recorded
  between the lines that surround them. The flag of a line is its \<open>dry_run_msg\<close> prefix.
\<close>

datatype event =
  LogNumConfigs bool int           \<comment> \<open>"# configurations in this project: N"\<close>
| LogEnumerate bool string         \<comment> \<open>"Enumerate configurations for NAME ..."\<close>
| LogCounts int int int            \<comment> \<open>"COUNT configurations (NEW new, FILTERED excluded by filter)."\<close>
| LogDone bool                     \<comment> \<open>"  DONE."\<close>
| LogNumNew bool int               \<comment> \<open>"# new configurations: N"\<close>
| LogWriteSupercellDb              \<comment> \<open>"Write supercell database..."\<close>
| CommitSupercellDb                \<comment> \<open>the call \<open>supercell_db.commit()\<close>\<close>
| LogWriteConfigDb                 \<comment> \<open>"Write configuration database..."\<close>
| CommitConfigDb                   \<comment> \<open>the call \<open>configuration_db.commit()\<close>\<close>
| LogWriteDone                     \<comment> \<open>"  DONE" after a commit\<close>

text \<open>
  Modelled from the spec: \<open>make_canonical_and_insert\<close> (ConfigDatabaseTools, not under
  src/). The canonical form of the primitive configuration is inserted; unless
  \<open>primitive_only\<close>, the non-primitive canonical form is inserted too when it differs.
  Each insertion registers the configuration's cell in the cell-store first.
\<close>

definition insert_with_cell ::
  "('c, 's) config_ops \<Rightarrow> 'c \<Rightarrow> ('c, 's) stores \<Rightarrow> ('c, 's) stores" where
  "insert_with_cell C c w =
     (let w1 = w\<lparr>supercell_db := snd (db_insert (supercell_of C c) (supercell_db w))\<rparr>
      in w1\<lparr>configuration_db := snd (db_insert c (configuration_db w1))\<rparr>)"

definition make_canonical_and_insert ::
  "('c, 's) config_ops \<Rightarrow> 'c \<Rightarrow> ('c, 's) stores \<Rightarrow> bool \<Rightarrow> ('c, 's) stores" where
  "make_canonical_and_insert C configuration w prim_only =
     (let pc = primitive_canonical C configuration;
          w1 = insert_with_cell C pc w
      in if prim_only then w1
         else (let nc = non_primitive_canonical C configuration
               in if nc \<noteq> pc then insert_with_cell C nc w1 else w1))"

text \<open>
  The body of the range-for over the enumerator. The state is the two stores and the
  loop's counters \<open>count\<close> and \<open>count_filtered\<close>.
\<close>

definition process_configuration ::
  "('c, 's) config_ops \<Rightarrow> 'c EnumerateConfigurationsOptions \<Rightarrow> bool \<Rightarrow> 'c \<Rightarrow>
   ('c, 's) stores \<times> int \<times> int \<Rightarrow> ('c, 's) stores \<times> int \<times> int" where
  "process_configuration C options guaranteed configuration0 state =
     (case state of (w, count, count_filtered) \<Rightarrow>
       (let configuration =
              (if \<not> has_primclex C configuration0 then set_primclex C configuration0
               else configuration0)
        in if (case filter_f options of None \<Rightarrow> False | Some f \<Rightarrow> \<not> f configuration)
           then (w, count, count_filtered + 1)
           else if guaranteed
             then (w\<lparr>configuration_db := snd (db_insert configuration (configuration_db w))\<rparr>,
                   count + 1, count_filtered)
             else (make_canonical_and_insert C configuration w (primitive_only options),
                   count + 1, count_filtered)))"

fun enumerate_loop ::
  "('c, 's) config_ops \<Rightarrow> 'c EnumerateConfigurationsOptions \<Rightarrow> bool \<Rightarrow> 'c list \<Rightarrow>
   ('c, 's) stores \<times> int \<times> int \<Rightarrow> ('c, 's) stores \<times> int \<times> int" where
  "enumerate_loop C options guaranteed [] state = state"
| "enumerate_loop C options guaranteed (configuration # rest) state =
     enumerate_loop C options guaranteed rest
       (process_configuration C options guaranteed configuration state)"

text \<open>The outer loop over the name-value pairs; it carries the stores and the log.\<close>

fun enumerate_batches ::
  "('c, 's) config_ops \<Rightarrow> 'c EnumerateConfigurationsOptions \<Rightarrow>
   (string \<Rightarrow> 'i \<Rightarrow> 'c Enumerator) \<Rightarrow> (string \<times> 'i) list \<Rightarrow>
   ('c, 's) stores \<times> event list \<Rightarrow> ('c, 's) stores \<times> event list" where
  "enumerate_batches C options make_enumerator_f [] state = state"
| "enumerate_batches C options make_enumerator_f (input_name_value_pair # rest) state =
     (case state of (w, log) \<Rightarrow>
       (let num_before = db_size (configuration_db w);
            log1 = log @ [LogEnumerate (dry_run options) (fst input_name_value_pair)];
            enumerator =
              make_enumerator_f (fst input_name_value_pair) (snd input_name_value_pair);
            (w', count, count_filtered) =
              enumerate_loop C options (is_guaranteed_for_database_insert enumerator)
                (configurations enumerator) (w, 0, 0);
            num_after = db_size (configuration_db w');
            log2 = log1 @ [LogCounts count (num_after - num_before) count_filtered]
        in enumerate_batches C options make_enumerator_f rest (w', log2)))"

text \<open>
  The outcome of a call: the stores, the log, and the error that ended the call when a
  commit threw (nothing in the function catches it).
\<close>

record ('c, 's) outcome =
  final_stores :: "('c, 's) stores"
  trace :: "event list"
  failure :: "error option"

definition enumerate_configurations ::
  "('c, 's) config_ops \<Rightarrow> 'c EnumerateConfigurationsOptions \<Rightarrow>
   (string \<Rightarrow> 'i \<Rightarrow> 'c Enumerator) \<Rightarrow> (string \<times> 'i) list \<Rightarrow>
   ('c, 's) stores \<Rightarrow> ('c, 's) outcome" where
  "enumerate_configurations C options make_enumerator_f name_value_pairs w0 =
     (let Ninit = db_size (configuration_db w0);
          log0 = [LogNumConfigs (dry_run options) Ninit];
          (w, log1) = enumerate_batches C options make_enumerator_f name_value_pairs (w0, log0);
          log2 = log1 @ [LogDone (dry_run options)];
          Nfinal = db_size (configuration_db w);
          log3 = log2 @ [LogNumNew (dry_run options) (Nfinal - Ninit),
                         LogNumConfigs (dry_run options) Nfinal]
      in if \<not> dry_run options then
           (let log4 = log3 @ [LogWriteSupercellDb, CommitSupercellDb]
            in case db_commit (supercell_db w) of
                 Inl e \<Rightarrow> \<lparr>final_stores = w, trace = log4, failure = Some e\<rparr>
               | Inr sdb \<Rightarrow>
                   (let w1 = w\<lparr>supercell_db := sdb\<rparr>;
                        log5 = log4 @ [LogWriteDone, LogWriteConfigDb, CommitConfigDb]
                    in case db_commit (configuration_db w1) of
                         Inl e \<Rightarrow> \<lparr>final_stores = w1, trace = log5, failure = Some e\<rparr>
                       | Inr cdb \<Rightarrow>
                           \<lparr>final_stores = w1\<lparr>configuration_db := cdb\<rparr>,
                            trace = log5 @ [LogWriteDone], failure = None\<rparr>))
         else \<lparr>final_stores = w, trace = log3, failure = None\<rparr>)"

subsection \<open>Reading a trace\<close>

text \<open>The commit calls of a trace, in order.\<close>

fun is_commit :: "event \<Rightarrow> bool" where
  "is_commit CommitSupercellDb = True"
| "is_commit CommitConfigDb = True"
| "is_commit _ = False"

definition commits :: "event list \<Rightarrow> event list" where
  "commits tr = filter is_commit tr"

text \<open>
  The reported counters of a trace: the lines that carry a batch name or a count, in
  order, with the dry-run prefix erased.
\<close>

fun report :: "event \<Rightarrow> event list" where
  "report (LogNumConfigs d n) = [LogNumConfigs False n]"
| "report (LogEnumerate d name) = [LogEnumerate False name]"
| "report (LogCounts c n f) = [LogCounts c n f]"
| "report (LogNumNew d n) = [LogNumNew False n]"
| "report _ = []"

definition reports :: "event list \<Rightarrow> event list" where
  "reports tr = concat (map report tr)"

subsection \<open>The insert-before-reference invariant and the states of a run\<close>

definition cells_registered :: "('c, 's) config_ops \<Rightarrow> ('c, 's) stores \<Rightarrow> bool" where
  "cells_registered C w \<longleftrightarrow>
     (\<forall>c\<in>set (entries (configuration_db w)).
        supercell_of C c \<in> set (entries (supercell_db w)))"

text \<open>
  The stores a run can be in between two configurations: the initial stores, and the
  stores after the loop body has run on a configuration of one of the enumerators.
\<close>

inductive reachable ::
  "('c, 's) config_ops \<Rightarrow> 'c EnumerateConfigurationsOptions \<Rightarrow>
   (string \<Rightarrow> 'i \<Rightarrow> 'c Enumerator) \<Rightarrow> (string \<times> 'i) list \<Rightarrow>
   ('c, 's) stores \<Rightarrow> ('c, 's) stores \<Rightarrow> bool"
  for C options make_enumerator_f name_value_pairs w0 where
  start: "reachable C options make_enumerator_f name_value_pairs w0 w0"
| step: "reachable C options make_enumerator_f name_value_pairs w0 w \<Longrightarrow>
         (name, input) \<in> set name_value_pairs \<Longrightarrow>
         configuration \<in> set (configurations (make_enumerator_f name input)) \<Longrightarrow>
         reachable C options make_enumerator_f name_value_pairs w0
           (fst (process_configuration C options
                  (is_guaranteed_for_database_insert (make_enumerator_f name input))
                  configuration (w, count, count_filtered)))"

subsection \<open>An instance to compute with\<close>

text \<open>
  A configuration is a pair of the number of its cell and an occupation vector; its
  canonical forms sort the occupations in decreasing order.
\<close>

definition pair_ops :: "(nat \<times> nat list, nat) config_ops" where
  "pair_ops =
     \<lparr>supercell_of = fst, has_primclex = (\<lambda>c. True), set_primclex = (\<lambda>c. c),
      primitive_canonical = (\<lambda>c. (fst c, rev (sort (snd c)))),
      non_primitive_canonical = (\<lambda>c. (fst c, rev (sort (snd c))))\<rparr>"

definition empty_db :: "'v database" where
  "empty_db = \<lparr>entries = [], durable = [], writable = True\<rparr>"

definition empty_stores :: "('c, 's) stores" where
  "empty_stores = \<lparr>supercell_db = empty_db, configuration_db = empty_db\<rparr>"

definition example_options :: "(nat \<times> nat list) EnumerateConfigurationsOptions" where
  "example_options = \<lparr>filter_f = None, primitive_only = True, dry_run = False\<rparr>"

definition example_enumerator :: "string \<Rightarrow> bool \<Rightarrow> (nat \<times> nat list) Enumerator" where
  "example_enumerator name guaranteed =
     \<lparr>configurations = [(2, [1, 0]), (2, [0, 1]), (2, [1, 1])],
      is_guaranteed_for_database_insert = guaranteed\<rparr>"

subsection \<open>Frames and preconditions used in the statements\<close>

text \<open>What insertions never touch: the durable contents and the writability of both stores.\<close>

definition same_durable :: "('c, 's) stores \<Rightarrow> ('c, 's) stores \<Rightarrow> bool" where
  "same_durable w w' \<longleftrightarrow>
     durable (supercell_db w') = durable (supercell_db w)
   \<and> durable (configuration_db w') = durable (configuration_db w)
   \<and> writable (supercell_db w') = writable (supercell_db w)
   \<and> writable (configuration_db w') = writable (configuration_db w)"

text \<open>
  Every configuration of an enumerator that is guaranteed for database insert lies, once
  its supercell has been given the project, in a cell the cell-store already holds.
\<close>

definition direct_inserts_registered ::
  "('c, 's) config_ops \<Rightarrow> (string \<Rightarrow> 'i \<Rightarrow> 'c Enumerator) \<Rightarrow> (string \<times> 'i) list \<Rightarrow>
   ('c, 's) stores \<Rightarrow> bool" where
  "direct_inserts_registered C make_enumerator_f name_value_pairs w0 \<longleftrightarrow>
     (\<forall>nv\<in>set name_value_pairs.
        is_guaranteed_for_database_insert (make_enumerator_f (fst nv) (snd nv)) \<longrightarrow>
        (\<forall>c\<in>set (configurations (make_enumerator_f (fst nv) (snd nv))).
           supercell_of C (if \<not> has_primclex C c then set_primclex C c else c)
             \<in> set (entries (supercell_db w0))))"

text \<open>Stores where cell 2 is registered; the cell-store may refuse to write.\<close>

definition cell2_stores :: "bool \<Rightarrow> (nat \<times> nat list, nat) stores" where
  "cell2_stores can_write =
     \<lparr>supercell_db = \<lparr>entries = [2], durable = [2], writable = can_write\<rparr>,
      configuration_db = \<lparr>entries = [], durable = [], writable = True\<rparr>\<rparr>"

section \<open>Properties of the engine\<close>

lemma none_of_iff: "none_of p xs \<longleftrightarrow> (\<forall>x\<in>set xs. \<not> p x)"
  by (induction xs) auto

lemma copy_if_filter: "copy_if p xs out = out @ filter p xs"
  by (induction xs arbitrary: out) auto

text \<open>
  C1. \<open>is_canonical(begin, end)\<close> is true exactly when no action of the range maps the
  object to a strictly greater one.
\<close>

theorem is_canonical_iff_no_greater_image:
  "is_canonical X obj A \<longleftrightarrow> \<not> (\<exists>a\<in>set A. obj_lt X obj (copy_apply X a obj))"
  by (simp add: is_canonical_def none_of_iff less_unary_def)

theorem is_canonical_iff_no_greater_image_witness:
  "is_canonical perm_ops [2, 1, 0] [[0, 1, 2], [2, 0, 1], [1, 2, 0]]
   \<and> \<not> is_canonical perm_ops [1, 2, 0] [[0, 1, 2], [2, 0, 1], [1, 2, 0]]"
  using is_canonical_iff_no_greater_image
          [of perm_ops "[2, 1, 0]" "[[0, 1, 2], [2, 0, 1], [1, 2, 0]]"]
        is_canonical_iff_no_greater_image
          [of perm_ops "[1, 2, 0]" "[[0, 1, 2], [2, 0, 1], [1, 2, 0]]"]
  by (simp add: perm_ops_def permute_def)

text \<open>
  C6. \<open>invariant_subgroup(begin, end)\<close> is the subsequence of the range, in its order, of
  the actions that \<open>equal_to\<close> accepts: those whose image of the object equals the object.
\<close>

theorem invariant_subgroup_is_filter:
  "invariant_subgroup X obj A = filter (\<lambda>a. obj_eq X obj (copy_apply X a obj)) A
   \<and> subseq (invariant_subgroup X obj A) A"
  by (simp add: invariant_subgroup_def copy_if_filter equal_to_def [abs_def])

lemma max_scan_first_maximum:
  assumes "strict_weak_order cmp"
    and "li < length pre" and "pre ! li = lv"
    and "\<forall>j<length pre. \<not> cmp lv (pre ! j)"
    and "\<forall>j<li. cmp (pre ! j) lv"
  shows "max_scan cmp (li, lv) (length pre) rest < length (pre @ rest)
       \<and> (\<forall>j<length (pre @ rest).
             \<not> cmp ((pre @ rest) ! max_scan cmp (li, lv) (length pre) rest) ((pre @ rest) ! j))
       \<and> (\<forall>j<max_scan cmp (li, lv) (length pre) rest.
             cmp ((pre @ rest) ! j) ((pre @ rest) ! max_scan cmp (li, lv) (length pre) rest))"
  using assms
proof (induction rest arbitrary: pre li lv)
  case Nil
  then show ?case by simp
next
  case (Cons x rest)
  note swo = Cons.prems(1)
  have irr: "\<And>a. \<not> cmp a a" and tr: "\<And>a b c. cmp a b \<Longrightarrow> cmp b c \<Longrightarrow> cmp a c"
    and ntr: "\<And>a b c. \<not> cmp a b \<Longrightarrow> \<not> cmp b c \<Longrightarrow> \<not> cmp a c"
    using swo unfolding strict_weak_order_def by blast+
  let ?pre = "pre @ [x]"
  have len: "length ?pre = Suc (length pre)" by simp
  have app: "?pre @ rest = pre @ x # rest" by simp
  show ?case
  proof (cases "cmp lv x")
    case True
    have a1: "length pre < length ?pre" by simp
    have a2: "?pre ! length pre = x" by simp
    have a3: "\<forall>j<length ?pre. \<not> cmp x (?pre ! j)"
    proof (intro allI impI)
      fix j assume "j < length ?pre"
      then consider "j < length pre" | "j = length pre" by fastforce
      then show "\<not> cmp x (?pre ! j)"
      proof cases
        case 1
        then have "\<not> cmp lv (pre ! j)" using Cons.prems(4) by blast
        then have "\<not> cmp x (pre ! j)" using True tr by blast
        then show ?thesis using 1 by (simp add: nth_append)
      next
        case 2
        then show ?thesis using irr by simp
      qed
    qed
    have a4: "\<forall>j<length pre. cmp (?pre ! j) x"
    proof (intro allI impI)
      fix j assume j: "j < length pre"
      have "\<not> cmp lv (pre ! j)" using Cons.prems(4) j by blast
      then have "cmp (pre ! j) x" using True ntr by blast
      then show "cmp (?pre ! j) x" using j by (simp add: nth_append)
    qed
    from Cons.IH [OF swo a1 a2 a3 a4] True show ?thesis
      by simp
  next
    case False
    have b1: "li < length ?pre" using Cons.prems(2) by simp
    have b2: "?pre ! li = lv" using Cons.prems(2,3) by (simp add: nth_append)
    have b3: "\<forall>j<length ?pre. \<not> cmp lv (?pre ! j)"
    proof (intro allI impI)
      fix j assume "j < length ?pre"
      then consider "j < length pre" | "j = length pre" by fastforce
      then show "\<not> cmp lv (?pre ! j)"
        using Cons.prems(4) False by cases (simp_all add: nth_append)
    qed
    have b4: "\<forall>j<li. cmp (?pre ! j) lv"
      using Cons.prems(2,5) by (simp add: nth_append)
    from Cons.IH [OF swo b1 b2 b3 b4] False show ?thesis
      by simp
  qed
qed

lemma max_scan_bound:
  "li < first \<Longrightarrow> max_scan cmp (li, lv) first rest < first + length rest"
proof (induction rest arbitrary: li lv first)
  case Nil
  then show ?case by simp
next
  case (Cons x rest)
  from Cons.IH [of first "Suc first" x] Cons.IH [of li "Suc first" lv] Cons.prems
  show ?case by auto
qed

lemma max_element_bound: "A \<noteq> [] \<Longrightarrow> max_element cmp A < length A"
  using max_scan_bound [of 0 1 cmp]
  by (cases A) (auto simp: max_element_def)

lemma max_element_first_maximum:
  assumes "strict_weak_order cmp" and "A \<noteq> []"
  shows "(\<forall>j<length A. \<not> cmp (A ! max_element cmp A) (A ! j))
       \<and> (\<forall>j<max_element cmp A. cmp (A ! j) (A ! max_element cmp A))"
proof -
  obtain x rest where A: "A = x # rest" using assms(2) by (cases A) auto
  have irr: "\<not> cmp x x" using assms(1) unfolding strict_weak_order_def by blast
  have "max_scan cmp (0, x) (length [x]) rest < length ([x] @ rest)
       \<and> (\<forall>j<length ([x] @ rest).
             \<not> cmp (([x] @ rest) ! max_scan cmp (0, x) (length [x]) rest) (([x] @ rest) ! j))
       \<and> (\<forall>j<max_scan cmp (0, x) (length [x]) rest.
             cmp (([x] @ rest) ! j) (([x] @ rest) ! max_scan cmp (0, x) (length [x]) rest))"
    by (rule max_scan_first_maximum [OF assms(1)]) (use irr in auto)
  then show ?thesis by (simp add: A max_element_def)
qed

lemma strict_weak_order_less_binary:
  "strict_weak_order (obj_lt X) \<Longrightarrow> strict_weak_order (less_binary X obj)"
  unfolding strict_weak_order_def less_binary_def by blast

text \<open>
  C2. On a non-empty range \<open>to_canonical\<close> returns the position \<open>std::max_element\<close>
  finds with the binary \<open>less\<close>, which lies in the range, and \<open>canonical_form\<close> is the
  action at that position applied to the object, whatever stands behind the range. When the order of objects is a strict weak order, no action of
  the range gives a greater image, and every earlier action gives a strictly smaller
  one: among the maximal images the first in enumeration order is chosen.
\<close>

theorem canonical_form_is_first_maximum:
  assumes "A \<noteq> []"
  shows "\<exists>k<length A.
           k = max_element (less_binary X obj) A
         \<and> to_canonical X obj A = k
         \<and> permutation_at (A @ rest) (to_canonical X obj A) = Inr (A ! k)
         \<and> canonical_form X obj A rest = Inr (copy_apply X (A ! k) obj)
         \<and> (strict_weak_order (obj_lt X) \<longrightarrow>
              (\<forall>j<length A. \<not> obj_lt X (copy_apply X (A ! k) obj) (copy_apply X (A ! j) obj))
            \<and> (\<forall>j<k. obj_lt X (copy_apply X (A ! j) obj) (copy_apply X (A ! k) obj)))"
proof -
  let ?k = "max_element (less_binary X obj) A"
  have k: "?k < length A" using assms by (rule max_element_bound)
  have t: "to_canonical X obj A = ?k" by (simp add: to_canonical_def)
  have p: "permutation_at (A @ rest) (to_canonical X obj A) = Inr (A ! ?k)"
    using k by (simp add: t permutation_at_def nth_append)
  have c: "canonical_form X obj A rest = Inr (copy_apply X (A ! ?k) obj)"
    by (simp add: canonical_form_def p)
  have m: "(\<forall>j<length A. \<not> obj_lt X (copy_apply X (A ! ?k) obj) (copy_apply X (A ! j) obj))
         \<and> (\<forall>j<?k. obj_lt X (copy_apply X (A ! j) obj) (copy_apply X (A ! ?k) obj))"
    if "strict_weak_order (obj_lt X)"
    using max_element_first_maximum [OF strict_weak_order_less_binary [OF that] assms, of obj]
    by (simp add: less_binary_def)
  from k t p c m show ?thesis by blast
qed

lemma strict_weak_order_perm_ops: "strict_weak_order (obj_lt perm_ops)"
  unfolding strict_weak_order_def perm_ops_def by auto

theorem canonical_form_is_first_maximum_witness:
  "[[0, 1, 2], [1, 0, 2], [2, 1, 0], [0, 2, 1], [2, 0, 1]] \<noteq> ([] :: nat list list)
   \<and> strict_weak_order (obj_lt perm_ops)
   \<and> to_canonical perm_ops [1, 0, 1] [[0, 1, 2], [1, 0, 2], [2, 1, 0], [0, 2, 1], [2, 0, 1]]
       = 3
   \<and> permutation_at
         ([[0, 1, 2], [1, 0, 2], [2, 1, 0], [0, 2, 1], [2, 0, 1]] @ [[1, 2, 0 :: nat]])
         (to_canonical perm_ops [1, 0, 1] [[0, 1, 2], [1, 0, 2], [2, 1, 0], [0, 2, 1], [2, 0, 1]])
       = Inr [0, 2, 1]
   \<and> canonical_form perm_ops [1, 0, 1] [[0, 1, 2], [1, 0, 2], [2, 1, 0], [0, 2, 1], [2, 0, 1]]
         [[1, 2, 0]]
       = Inr [1, 1, 0]"
  using canonical_form_is_first_maximum
          [of "[[0, 1, 2], [1, 0, 2], [2, 1, 0], [0, 2, 1], [2, 0, 1]]" perm_ops "[1, 0, 1]"
              "[[1, 2, 0]]"]
        strict_weak_order_perm_ops
  by (auto simp: max_element_def less_binary_def perm_ops_def permute_def)

text \<open>
  C5, as stated, fails: on an empty range \<open>std::max_element\<close> returns \<open>end\<close>, and
  \<open>canonical_form\<close> applies the permutation that stands at \<open>end\<close>. For an empty range in
  the middle of the table that is some permutation of the supercell; here it exchanges
  the first two sites, and the object is not returned unchanged.
\<close>

theorem empty_range_canonical_form_counterexample:
  "\<not> (canonical_form perm_ops [1, 0, 1] [] [[1, 0, 2], [0, 1, 2]] = Inr [1, 0, 1]
      \<and> is_canonical perm_ops [1, 0, 1] [])"
  by (simp add: canonical_form_def to_canonical_def max_element_def permutation_at_def
        perm_ops_def permute_def)

text \<open>
  C5, amended. On an empty range \<open>is_canonical\<close> is true (\<open>std::none_of\<close> over nothing) and
  \<open>to_canonical\<close> returns \<open>end\<close>. \<open>canonical_form\<close> returns the object under the permutation
  that stands at \<open>end\<close> in the supercell's table: the object unchanged when that
  permutation leaves the object as it is, and no object when \<open>end\<close> is the end of the table.
\<close>

theorem empty_range_applies_permutation_at_end:
  "is_canonical X obj []
   \<and> to_canonical X obj [] = length ([] :: 'a list)
   \<and> canonical_form X obj [] (a # rest) = Inr (copy_apply X a obj)
   \<and> (copy_apply X a obj = obj \<longrightarrow> canonical_form X obj [] (a # rest) = Inr obj)
   \<and> canonical_form X obj [] [] = Inl PastTheEnd"
  by (simp add: is_canonical_def canonical_form_def to_canonical_def max_element_def
        permutation_at_def)

theorem empty_range_applies_permutation_at_end_witness:
  "copy_apply perm_ops [0, 1, 2] [1, 0, 1] = [1, 0, 1]
   \<and> canonical_form perm_ops [1, 0, 1] [] [[0, 1, 2], [1, 0, 2]] = Inr [1, 0, 1]"
proof -
  have h: "copy_apply perm_ops [0, 1, 2] [1, 0, 1] = [1, 0, 1]"
    by (simp add: perm_ops_def permute_def)
  from empty_range_applies_permutation_at_end [of perm_ops "[1, 0, 1]" "[0, 1, 2]" "[[1, 0, 2]]"] h
  show ?thesis by simp
qed

text \<open>
  C3. The overload of \<open>from_canonical\<close> taking a supercell and a range computes the
  inverse of \<open>to_canonical(scel, begin, end)\<close> and returns nothing, whatever its input;
  the overload taking a symmetry group and the overload taking a plain range do return
  the inverse of what their \<open>to_canonical\<close> returns.
\<close>

theorem from_canonical_scel_returns_no_value:
  "from_canonical_scel G obj scel A = Inl NoReturnValue
   \<and> from_canonical_scel G obj scel A \<noteq> Inr (SymOp_inverse G (to_canonical_scel G obj scel A))
   \<and> from_canonical_grp G obj g sym_compare = SymOp_inverse G (to_canonical_grp G obj g sym_compare)
   \<and> from_canonical X obj A rest
       = map_sum id (inverse_op X) (permutation_at (A @ rest) (to_canonical X obj A))"
  by (simp add: from_canonical_scel_def from_canonical_grp_def from_canonical_def
        split: sum.splits)

text \<open>
  C4. \<open>is_canonical(scel, begin, end)\<close> and \<open>canonical_form(scel, begin, end)\<close> call their
  functor as \<open>f(derived())\<close>, without the range, so their results are the same for every
  range. Whatever the functor computes, the results cannot be those relative to the
  supplied range: on the two-site configuration \<open>[0, 1]\<close> the range holding only the
  identity and the range holding only the swap require different answers.
\<close>

theorem scel_range_overloads_ignore_the_range:
  "is_canonical_scel G obj scel A = is_canonical_scel G obj scel B
   \<and> canonical_form_scel G obj scel A = canonical_form_scel G obj scel B
   \<and> \<not> (\<forall>A obj. is_canonical_scel G obj scel A = is_canonical perm_ops obj A)
   \<and> \<not> (\<forall>a A obj. canonical_form perm_ops obj (a # A) rest
                      = Inr (canonical_form_scel G obj scel (a # A)))"
proof (intro conjI notI)
  show "is_canonical_scel G obj scel A = is_canonical_scel G obj scel B"
    by (simp add: is_canonical_scel_def)
next
  show "canonical_form_scel G obj scel A = canonical_form_scel G obj scel B"
    by (simp add: canonical_form_scel_def)
next
  assume h: "\<forall>A obj. is_canonical_scel G obj scel A = is_canonical perm_ops obj A"
  have "is_canonical_scel G [0, 1] scel [[0, 1]] = is_canonical_scel G [0, 1] scel [[1, 0]]"
    by (simp add: is_canonical_scel_def)
  then have "is_canonical perm_ops [0, 1] [[0, 1]] = is_canonical perm_ops [0, 1] [[1, 0]]"
    using h by simp
  then show False by (simp add: is_canonical_def less_unary_def perm_ops_def permute_def)
next
  assume h: "\<forall>a A obj. canonical_form perm_ops obj (a # A) rest
                      = Inr (canonical_form_scel G obj scel (a # A))"
  have "canonical_form_scel G [0, 1] scel [[0, 1]] = canonical_form_scel G [0, 1] scel [[1, 0]]"
    by (simp add: canonical_form_scel_def)
  then have "canonical_form perm_ops [0, 1] [[0, 1]] rest
           = canonical_form perm_ops [0, 1] [[1, 0]] rest"
    using h by simp
  then show False
    by (simp add: canonical_form_def to_canonical_def max_element_def permutation_at_def
          perm_ops_def permute_def)
qed

section \<open>Properties of the calls\<close>

text \<open>
  C10, as stated, fails for one call: \<open>canonical_form()\<close> on a supercell whose
  \<open>m_canonical\<close> is null writes that member, even when \<open>insert()\<close> leaves the stores.
\<close>

theorem supercell_canonical_form_counterexample:
  "\<not> (snd (Supercell_call registered_cell_ops () [] CanonicalForm
              (\<lparr>cell = 2, m_canonical = None\<rparr>, empty_stores))
        = (\<lparr>cell = 2, m_canonical = None\<rparr>, empty_stores))"
  by (simp add: Supercell_canonical_form_def registered_cell_ops_def)

text \<open>
  C10, amended. Computing whether a configuration is canonical, its canonical form, the
  actions to and from it and its invariant subgroup over a range leaves the
  configuration and both stores as they are, and so does every such call on a
  supercell, with one exception: \<open>canonical_form()\<close> on a supercell whose \<open>m_canonical\<close>
  is null calls the supercell's \<open>insert()\<close>, leaves the stores as \<open>insert()\<close> leaves them, and
  sets \<open>m_canonical\<close> to the entry \<open>insert()\<close> returns.
\<close>

theorem canonical_form_calls_leave_state:
  "snd (Configuration_call X A rest m (obj, w)) = (obj, w)
   \<and> snd (Supercell_call S scel_B B m (scel, w'))
     = (if m = CanonicalForm \<and> m_canonical scel = None
        then (scel\<lparr>m_canonical := Some (fst (fst (Supercell_insert S scel w')))\<rparr>,
              snd (Supercell_insert S scel w'))
        else (scel, w'))"
proof -
  have c: "snd (Configuration_call X A rest m (obj, w)) = (obj, w)"
    by (cases m) (simp_all add: const_call_def)
  have s: "snd (Supercell_call S scel_B B m (scel, w'))
     = (if m = CanonicalForm \<and> m_canonical scel = None
        then (scel\<lparr>m_canonical := Some (fst (fst (Supercell_insert S scel w')))\<rparr>,
              snd (Supercell_insert S scel w'))
        else (scel, w'))"
    by (cases m; cases "m_canonical scel")
       (simp_all add: const_call_def Supercell_canonical_form_def case_prod_beta)
  from c s show ?thesis by simp
qed

theorem canonical_form_calls_leave_state_witness:
  "snd (Configuration_call perm_ops [[0, 1, 2], [1, 0, 2]] [] CanonicalForm
          ([1, 0, 1], cell2_stores True))
     = ([1, 0, 1], cell2_stores True)
   \<and> snd (Supercell_call registered_cell_ops () [] CanonicalForm
            (\<lparr>cell = 2, m_canonical = Some 2\<rparr>, cell2_stores True))
     = (\<lparr>cell = 2, m_canonical = Some 2\<rparr>, cell2_stores True)
   \<and> snd (Supercell_call registered_cell_ops () [] CanonicalForm
            (\<lparr>cell = 2, m_canonical = None\<rparr>, cell2_stores True))
     = (\<lparr>cell = 2, m_canonical = Some 2\<rparr>, cell2_stores True)"
  using canonical_form_calls_leave_state
          [of perm_ops "[[0, 1, 2], [1, 0, 2]]" "[]" CanonicalForm "[1, 0, 1]" "cell2_stores True"
              registered_cell_ops "()" "[]" "\<lparr>cell = 2, m_canonical = Some 2\<rparr>" "cell2_stores True"]
        canonical_form_calls_leave_state
          [of perm_ops "[[0, 1, 2], [1, 0, 2]]" "[]" CanonicalForm "[1, 0, 1]" "cell2_stores True"
              registered_cell_ops "()" "[]" "\<lparr>cell = 2, m_canonical = None\<rparr>" "cell2_stores True"]
  by (simp add: registered_cell_ops_def)

section \<open>Properties of the enumeration pipeline\<close>

lemma process_configuration_dry_run:
  "process_configuration C (options\<lparr>dry_run := b\<rparr>) g c state
     = process_configuration C options g c state"
  by (cases state) (simp add: process_configuration_def Let_def)

lemma enumerate_loop_dry_run:
  "enumerate_loop C (options\<lparr>dry_run := b\<rparr>) g cs state = enumerate_loop C options g cs state"
  by (induction cs arbitrary: state) (simp_all add: process_configuration_dry_run)

lemma reports_append: "reports (xs @ ys) = reports xs @ reports ys"
  by (simp add: reports_def)

lemma commits_append: "commits (xs @ ys) = commits xs @ commits ys"
  by (simp add: commits_def)

lemma enumerate_batches_dry_run:
  assumes "reports log = reports log'"
  shows "fst (enumerate_batches C (options\<lparr>dry_run := b\<rparr>) mk bs (w, log))
           = fst (enumerate_batches C options mk bs (w, log'))
       \<and> reports (snd (enumerate_batches C (options\<lparr>dry_run := b\<rparr>) mk bs (w, log)))
           = reports (snd (enumerate_batches C options mk bs (w, log')))"
  using assms
proof (induction bs arbitrary: w log log')
  case Nil
  then show ?case by simp
next
  case (Cons nv bs)
  obtain w1 n1 f1 where
    l: "enumerate_loop C options (is_guaranteed_for_database_insert (mk (fst nv) (snd nv)))
          (configurations (mk (fst nv) (snd nv))) (w, 0, 0) = (w1, n1, f1)"
    by (cases "enumerate_loop C options (is_guaranteed_for_database_insert (mk (fst nv) (snd nv)))
          (configurations (mk (fst nv) (snd nv))) (w, 0, 0)") auto
  let ?c = "LogCounts n1 (db_size (configuration_db w1) - db_size (configuration_db w)) f1"
  have r: "reports (log @ [LogEnumerate b (fst nv)] @ [?c])
         = reports (log' @ [LogEnumerate (dry_run options) (fst nv)] @ [?c])"
    using Cons.prems by (simp add: reports_append) (simp add: reports_def)
  from Cons.IH [OF r, of w1] show ?case
    by (simp add: enumerate_loop_dry_run l)
qed

lemma commits_enumerate_batches:
  "commits (snd (enumerate_batches C options mk bs (w, log))) = commits log"
proof (induction bs arbitrary: w log)
  case Nil
  then show ?case by simp
next
  case (Cons nv bs)
  show ?case
    by (simp add: Cons.IH case_prod_beta Let_def commits_append) (simp add: commits_def)
qed

lemma db_insert_durable:
  "durable (snd (db_insert v db)) = durable db" "writable (snd (db_insert v db)) = writable db"
  by (simp_all add: db_insert_def)

lemma insert_with_cell_durable: "same_durable w (insert_with_cell C c w)"
  by (simp add: same_durable_def insert_with_cell_def Let_def db_insert_durable)

lemma same_durable_trans: "same_durable a b \<Longrightarrow> same_durable b c \<Longrightarrow> same_durable a c"
  by (simp add: same_durable_def)

lemma same_durable_refl: "same_durable a a"
  by (simp add: same_durable_def)

lemma make_canonical_and_insert_durable:
  "same_durable w (make_canonical_and_insert C c w p)"
  by (auto simp: make_canonical_and_insert_def Let_def same_durable_refl
      intro: insert_with_cell_durable same_durable_trans [OF insert_with_cell_durable insert_with_cell_durable])

lemma process_configuration_durable:
  "same_durable w (fst (process_configuration C options g c (w, n, f)))"
  by (auto simp: process_configuration_def Let_def same_durable_refl make_canonical_and_insert_durable
        split: option.splits)
     (simp_all add: same_durable_def db_insert_durable)

lemma enumerate_loop_durable:
  "same_durable w (fst (enumerate_loop C options g cs (w, n, f)))"
proof (induction cs arbitrary: w n f)
  case Nil
  then show ?case by (simp add: same_durable_refl)
next
  case (Cons c cs)
  obtain w1 n1 f1 where p: "process_configuration C options g c (w, n, f) = (w1, n1, f1)"
    by (cases "process_configuration C options g c (w, n, f)") auto
  have "same_durable w w1" using process_configuration_durable [of w C options g c n f] p by simp
  moreover have "same_durable w1 (fst (enumerate_loop C options g cs (w1, n1, f1)))"
    by (rule Cons.IH)
  ultimately show ?case by (simp add: p same_durable_trans)
qed

lemma enumerate_batches_durable:
  "same_durable w (fst (enumerate_batches C options mk bs (w, log)))"
proof (induction bs arbitrary: w log)
  case Nil
  then show ?case by (simp add: same_durable_refl)
next
  case (Cons nv bs)
  obtain w1 n1 f1 where
    l: "enumerate_loop C options (is_guaranteed_for_database_insert (mk (fst nv) (snd nv)))
          (configurations (mk (fst nv) (snd nv))) (w, 0, 0) = (w1, n1, f1)"
    by (cases "enumerate_loop C options (is_guaranteed_for_database_insert (mk (fst nv) (snd nv)))
          (configurations (mk (fst nv) (snd nv))) (w, 0, 0)") auto
  have "same_durable w w1"
    using enumerate_loop_durable [of w C options _ _ 0 0] l by (metis fst_conv)
  then show ?case
    using Cons.IH [of w1] by (simp add: l) (blast intro: same_durable_trans)
qed

lemma enumerate_batches_frame:
  "durable (supercell_db (fst (enumerate_batches C options mk bs (w, log))))
     = durable (supercell_db w)"
  "durable (configuration_db (fst (enumerate_batches C options mk bs (w, log))))
     = durable (configuration_db w)"
  "writable (supercell_db (fst (enumerate_batches C options mk bs (w, log))))
     = writable (supercell_db w)"
  "writable (configuration_db (fst (enumerate_batches C options mk bs (w, log))))
     = writable (configuration_db w)"
  using enumerate_batches_durable [of w C options mk bs log]
  by (simp_all add: same_durable_def)

lemma batches_result_dry_run:
  "fst (enumerate_batches C (options\<lparr>dry_run := b\<rparr>) mk bs (w, [LogNumConfigs b n]))
     = fst (enumerate_batches C options mk bs (w, [LogNumConfigs (dry_run options) n]))
   \<and> reports (snd (enumerate_batches C (options\<lparr>dry_run := b\<rparr>) mk bs (w, [LogNumConfigs b n])))
     = reports (snd (enumerate_batches C options mk bs (w, [LogNumConfigs (dry_run options) n])))"
  by (rule enumerate_batches_dry_run) (simp add: reports_def)

lemma reports_trace:
  "reports (trace (enumerate_configurations C options mk bs w0))
     = reports (snd (enumerate_batches C options mk bs
                      (w0, [LogNumConfigs (dry_run options) (db_size (configuration_db w0))])))
       @ [LogNumNew False
            (db_size (configuration_db (fst (enumerate_batches C options mk bs
               (w0, [LogNumConfigs (dry_run options) (db_size (configuration_db w0))]))))
             - db_size (configuration_db w0)),
          LogNumConfigs False
            (db_size (configuration_db (fst (enumerate_batches C options mk bs
               (w0, [LogNumConfigs (dry_run options) (db_size (configuration_db w0))])))))]"
  by (simp add: enumerate_configurations_def Let_def case_prod_beta reports_append
        split: sum.splits)
     (simp add: reports_def)

lemma commits_trace:
  "commits (trace (enumerate_configurations C options mk bs w0))
     = (if dry_run options then []
        else if writable (supercell_db (fst (enumerate_batches C options mk bs
               (w0, [LogNumConfigs (dry_run options) (db_size (configuration_db w0))]))))
        then [CommitSupercellDb, CommitConfigDb] else [CommitSupercellDb])"
  by (simp add: enumerate_configurations_def Let_def case_prod_beta commits_append
        commits_enumerate_batches db_commit_def split: sum.splits)
     (simp add: commits_def)

text \<open>
  C7. A run with \<open>dry_run\<close> set and a run without it, on the same configuration
  interface, options, enumerators, name-value pairs and initial stores, report the same
  batch names and counters in the same order; the dry run calls no commit and leaves the
  durable contents of both stores as they were.
\<close>

theorem dry_run_same_counters_and_no_commit:
  "reports (trace (enumerate_configurations C (options\<lparr>dry_run := True\<rparr>) mk bs w0))
     = reports (trace (enumerate_configurations C (options\<lparr>dry_run := False\<rparr>) mk bs w0))
   \<and> commits (trace (enumerate_configurations C (options\<lparr>dry_run := True\<rparr>) mk bs w0)) = []
   \<and> durable (supercell_db
        (final_stores (enumerate_configurations C (options\<lparr>dry_run := True\<rparr>) mk bs w0)))
       = durable (supercell_db w0)
   \<and> durable (configuration_db
        (final_stores (enumerate_configurations C (options\<lparr>dry_run := True\<rparr>) mk bs w0)))
       = durable (configuration_db w0)"
proof -
  let ?n = "db_size (configuration_db w0)"
  have t: "reports (trace (enumerate_configurations C (options\<lparr>dry_run := True\<rparr>) mk bs w0))
         = reports (trace (enumerate_configurations C options mk bs w0))"
    using batches_result_dry_run [where b = True and options = options and w = w0 and n = ?n and C = C and mk = mk and bs = bs]
    by (simp add: reports_trace)
  have f: "reports (trace (enumerate_configurations C (options\<lparr>dry_run := False\<rparr>) mk bs w0))
         = reports (trace (enumerate_configurations C options mk bs w0))"
    using batches_result_dry_run [where b = False and options = options and w = w0 and n = ?n and C = C and mk = mk and bs = bs]
    by (simp add: reports_trace)
  have c: "commits (trace (enumerate_configurations C (options\<lparr>dry_run := True\<rparr>) mk bs w0)) = []"
    by (simp add: commits_trace)
  have d: "durable (supercell_db
        (final_stores (enumerate_configurations C (options\<lparr>dry_run := True\<rparr>) mk bs w0)))
       = durable (supercell_db w0)
   \<and> durable (configuration_db
        (final_stores (enumerate_configurations C (options\<lparr>dry_run := True\<rparr>) mk bs w0)))
       = durable (configuration_db w0)"
    by (simp add: enumerate_configurations_def Let_def case_prod_beta enumerate_batches_frame)
  from t f c d show ?thesis by simp
qed

theorem dry_run_same_counters_and_no_commit_witness:
  "reports (trace (enumerate_configurations pair_ops (example_options\<lparr>dry_run := True\<rparr>)
              example_enumerator [(''scel2'', False)] empty_stores))
     = [LogNumConfigs False 0, LogEnumerate False ''scel2'', LogCounts 3 2 0,
        LogNumNew False 2, LogNumConfigs False 2]
   \<and> commits (trace (enumerate_configurations pair_ops (example_options\<lparr>dry_run := True\<rparr>)
              example_enumerator [(''scel2'', False)] empty_stores)) = []"
proof -
  have "reports (trace (enumerate_configurations pair_ops (example_options\<lparr>dry_run := False\<rparr>)
              example_enumerator [(''scel2'', False)] empty_stores))
     = [LogNumConfigs False 0, LogEnumerate False ''scel2'', LogCounts 3 2 0,
        LogNumNew False 2, LogNumConfigs False 2]"
    by (simp add: reports_def enumerate_configurations_def process_configuration_def
          make_canonical_and_insert_def insert_with_cell_def
          db_insert_def db_size_def db_commit_def pair_ops_def example_options_def
          example_enumerator_def empty_stores_def empty_db_def Let_def)
  with dry_run_same_counters_and_no_commit
         [of pair_ops example_options example_enumerator "[(''scel2'', False)]" empty_stores]
  show ?thesis by simp
qed

text \<open>
  C8. The commit calls of a run are: none when \<open>dry_run\<close> is set; otherwise the
  cell-store's and then the object-store's when the cell-store's commit succeeds, and
  the cell-store's alone when it fails. The run fails exactly when it is not a dry run
  and one of the two commits fails. The stores show the same: the cell-store's durable
  contents become its entries exactly when the run is not a dry run and its commit
  succeeds; the object-store's durable contents become its entries exactly when,
  besides, the object-store's own commit succeeds; otherwise the durable contents are
  those before the run. The entries of both stores are those the loops left.
\<close>

theorem cell_store_committed_before_object_store:
  "commits (trace (enumerate_configurations C options mk bs w0))
     = (if dry_run options then []
        else if writable (supercell_db w0) then [CommitSupercellDb, CommitConfigDb]
        else [CommitSupercellDb])
   \<and> failure (enumerate_configurations C options mk bs w0)
     = (if dry_run options \<or> (writable (supercell_db w0) \<and> writable (configuration_db w0))
        then None else Some StorageError)
   \<and> durable (supercell_db (final_stores (enumerate_configurations C options mk bs w0)))
     = (if \<not> dry_run options \<and> writable (supercell_db w0)
        then entries (supercell_db (final_stores (enumerate_configurations C options mk bs w0)))
        else durable (supercell_db w0))
   \<and> durable (configuration_db (final_stores (enumerate_configurations C options mk bs w0)))
     = (if \<not> dry_run options \<and> writable (supercell_db w0) \<and> writable (configuration_db w0)
        then entries (configuration_db (final_stores (enumerate_configurations C options mk bs w0)))
        else durable (configuration_db w0))
   \<and> entries (supercell_db (final_stores (enumerate_configurations C options mk bs w0)))
     = entries (supercell_db (fst (enumerate_batches C options mk bs
         (w0, [LogNumConfigs (dry_run options) (db_size (configuration_db w0))]))))
   \<and> entries (configuration_db (final_stores (enumerate_configurations C options mk bs w0)))
     = entries (configuration_db (fst (enumerate_batches C options mk bs
         (w0, [LogNumConfigs (dry_run options) (db_size (configuration_db w0))]))))"
proof -
  have c: "commits (trace (enumerate_configurations C options mk bs w0))
     = (if dry_run options then []
        else if writable (supercell_db w0) then [CommitSupercellDb, CommitConfigDb]
        else [CommitSupercellDb])"
    by (simp add: commits_trace enumerate_batches_frame)
  have f: "failure (enumerate_configurations C options mk bs w0)
     = (if dry_run options \<or> (writable (supercell_db w0) \<and> writable (configuration_db w0))
        then None else Some StorageError)"
    by (simp add: enumerate_configurations_def Let_def case_prod_beta db_commit_def
          enumerate_batches_frame split: sum.splits)
  have ds: "durable (supercell_db (final_stores (enumerate_configurations C options mk bs w0)))
     = (if \<not> dry_run options \<and> writable (supercell_db w0)
        then entries (supercell_db (final_stores (enumerate_configurations C options mk bs w0)))
        else durable (supercell_db w0))"
    by (simp add: enumerate_configurations_def Let_def case_prod_beta db_commit_def
          enumerate_batches_frame split: sum.splits)
  have dc: "durable (configuration_db (final_stores (enumerate_configurations C options mk bs w0)))
     = (if \<not> dry_run options \<and> writable (supercell_db w0) \<and> writable (configuration_db w0)
        then entries (configuration_db (final_stores (enumerate_configurations C options mk bs w0)))
        else durable (configuration_db w0))"
    by (simp add: enumerate_configurations_def Let_def case_prod_beta db_commit_def
          enumerate_batches_frame split: sum.splits)
  have es: "entries (supercell_db (final_stores (enumerate_configurations C options mk bs w0)))
     = entries (supercell_db (fst (enumerate_batches C options mk bs
         (w0, [LogNumConfigs (dry_run options) (db_size (configuration_db w0))]))))"
    by (simp add: enumerate_configurations_def Let_def case_prod_beta db_commit_def
          split: sum.splits)
  have ec: "entries (configuration_db (final_stores (enumerate_configurations C options mk bs w0)))
     = entries (configuration_db (fst (enumerate_batches C options mk bs
         (w0, [LogNumConfigs (dry_run options) (db_size (configuration_db w0))]))))"
    by (simp add: enumerate_configurations_def Let_def case_prod_beta db_commit_def
          split: sum.splits)
  from c f ds dc es ec show ?thesis by blast
qed

theorem cell_store_committed_before_object_store_witness:
  "commits (trace (enumerate_configurations pair_ops example_options example_enumerator
              [(''scel2'', False)] (cell2_stores True)))
     = [CommitSupercellDb, CommitConfigDb]
   \<and> commits (trace (enumerate_configurations pair_ops example_options example_enumerator
              [(''scel2'', False)] (cell2_stores False)))
     = [CommitSupercellDb]
   \<and> failure (enumerate_configurations pair_ops example_options example_enumerator
              [(''scel2'', False)] (cell2_stores False))
     = Some StorageError
   \<and> durable (configuration_db (final_stores (enumerate_configurations pair_ops example_options
              example_enumerator [(''scel2'', False)] (cell2_stores False))))
     = []
   \<and> entries (configuration_db (final_stores (enumerate_configurations pair_ops example_options
              example_enumerator [(''scel2'', False)] (cell2_stores False))))
     = [(2, [1, 0]), (2, [1, 1])]
   \<and> durable (configuration_db (final_stores (enumerate_configurations pair_ops example_options
              example_enumerator [(''scel2'', False)] (cell2_stores True))))
     = [(2, [1, 0]), (2, [1, 1])]
   \<and> commits (trace (enumerate_configurations pair_ops (example_options\<lparr>dry_run := True\<rparr>)
              example_enumerator [(''scel2'', False)] (cell2_stores True)))
     = []"
proof -
  have e: "entries (configuration_db (fst (enumerate_batches pair_ops example_options
              example_enumerator [(''scel2'', False)]
              (cell2_stores b, [LogNumConfigs False 0]))))
     = [(2, [1, 0]), (2, [1, 1])]" for b
    by (simp add: process_configuration_def make_canonical_and_insert_def insert_with_cell_def
          db_insert_def db_size_def pair_ops_def example_options_def
          example_enumerator_def cell2_stores_def Let_def)
  have z: "db_size (configuration_db (cell2_stores b)) = 0" for b
    by (simp add: db_size_def cell2_stores_def)
  have d: "dry_run example_options = False" "writable (supercell_db (cell2_stores b)) = b"
    "writable (configuration_db (cell2_stores b)) = True"
    "durable (configuration_db (cell2_stores b)) = []" for b
    by (simp_all add: example_options_def cell2_stores_def)
  from cell_store_committed_before_object_store
          [of pair_ops example_options example_enumerator "[(''scel2'', False)]" "cell2_stores True"]
        cell_store_committed_before_object_store
          [of pair_ops example_options example_enumerator "[(''scel2'', False)]" "cell2_stores False"]
        cell_store_committed_before_object_store
          [of pair_ops "example_options\<lparr>dry_run := True\<rparr>" example_enumerator
              "[(''scel2'', False)]" "cell2_stores True"]
  show ?thesis by (simp add: e z d del: enumerate_batches.simps)
qed

lemma set_entries_db_insert: "set (entries (snd (db_insert v db))) = insert v (set (entries db))"
  by (auto simp: db_insert_def)

lemma insert_with_cell_entries:
  "set (entries (supercell_db (insert_with_cell C c w)))
     = insert (supercell_of C c) (set (entries (supercell_db w)))"
  "set (entries (configuration_db (insert_with_cell C c w)))
     = insert c (set (entries (configuration_db w)))"
  by (simp_all add: insert_with_cell_def Let_def set_entries_db_insert)

lemma insert_with_cell_registered:
  "cells_registered C w \<Longrightarrow> cells_registered C (insert_with_cell C c w)"
  by (auto simp: cells_registered_def insert_with_cell_entries)

lemma insert_with_cell_grows:
  "set (entries (supercell_db w)) \<subseteq> set (entries (supercell_db (insert_with_cell C c w)))"
  by (auto simp: insert_with_cell_entries)

lemma make_canonical_and_insert_registered:
  "cells_registered C w \<Longrightarrow> cells_registered C (make_canonical_and_insert C c w p)"
  by (simp add: make_canonical_and_insert_def Let_def insert_with_cell_registered)

lemma make_canonical_and_insert_grows:
  "set (entries (supercell_db w))
     \<subseteq> set (entries (supercell_db (make_canonical_and_insert C c w p)))"
  by (auto simp: make_canonical_and_insert_def Let_def insert_with_cell_entries)

lemma process_configuration_registered:
  assumes "cells_registered C w"
    and "g \<longrightarrow> supercell_of C (if \<not> has_primclex C c then set_primclex C c else c)
                 \<in> set (entries (supercell_db w))"
  shows "cells_registered C (fst (process_configuration C options g c (w, n, f)))"
proof -
  let ?c = "if \<not> has_primclex C c then set_primclex C c else c"
  show ?thesis
  proof (cases "case filter_f options of None \<Rightarrow> False | Some f \<Rightarrow> \<not> f ?c")
    case True
    then have "fst (process_configuration C options g c (w, n, f)) = w"
      by (simp add: process_configuration_def Let_def)
    then show ?thesis using assms(1) by simp
  next
    case False
    show ?thesis
    proof (cases g)
      case True
      then have "fst (process_configuration C options g c (w, n, f))
          = w\<lparr>configuration_db := snd (db_insert ?c (configuration_db w))\<rparr>"
        using False by (simp add: process_configuration_def Let_def)
      then show ?thesis
        using assms True by (auto simp: cells_registered_def set_entries_db_insert)
    next
      case g: False
      then have "fst (process_configuration C options g c (w, n, f))
          = make_canonical_and_insert C ?c w (primitive_only options)"
        using False by (simp add: process_configuration_def Let_def)
      then show ?thesis using assms(1) by (simp add: make_canonical_and_insert_registered)
    qed
  qed
qed

lemma process_configuration_grows:
  "set (entries (supercell_db w))
     \<subseteq> set (entries (supercell_db (fst (process_configuration C options g c (w, n, f)))))"
  using make_canonical_and_insert_grows [of w C]
  by (auto simp: process_configuration_def Let_def split: option.splits)

lemma reachable_registered:
  assumes "cells_registered C w0" and "direct_inserts_registered C mk bs w0"
    and "reachable C options mk bs w0 w"
  shows "cells_registered C w
       \<and> set (entries (supercell_db w0)) \<subseteq> set (entries (supercell_db w))"
  using assms(3)
proof (induction rule: reachable.induct)
  case start
  then show ?case using assms(1) by simp
next
  case (step w name input configuration count count_filtered)
  let ?g = "is_guaranteed_for_database_insert (mk name input)"
  have "?g \<longrightarrow> supercell_of C (if \<not> has_primclex C configuration
                   then set_primclex C configuration else configuration)
                 \<in> set (entries (supercell_db w))"
    using assms(2) step.hyps(2,3) step.IH
    unfolding direct_inserts_registered_def by fastforce
  then have "cells_registered C
      (fst (process_configuration C options ?g configuration (w, count, count_filtered)))"
    using step.IH by (intro process_configuration_registered) simp_all
  moreover have "set (entries (supercell_db w0))
      \<subseteq> set (entries (supercell_db
            (fst (process_configuration C options ?g configuration (w, count, count_filtered)))))"
    using step.IH process_configuration_grows [of w C options ?g configuration count count_filtered]
    by blast
  ultimately show ?case by simp
qed

lemma enumerate_loop_reachable:
  assumes "(name, input) \<in> set bs"
  shows "reachable C options mk bs w0 w \<Longrightarrow>
         set cs \<subseteq> set (configurations (mk name input)) \<Longrightarrow>
         reachable C options mk bs w0
           (fst (enumerate_loop C options (is_guaranteed_for_database_insert (mk name input))
                  cs (w, n, f)))"
proof (induction cs arbitrary: w n f)
  case Nil
  then show ?case by simp
next
  case (Cons c cs)
  let ?g = "is_guaranteed_for_database_insert (mk name input)"
  obtain w1 n1 f1 where p: "process_configuration C options ?g c (w, n, f) = (w1, n1, f1)"
    by (cases "process_configuration C options ?g c (w, n, f)") auto
  have "reachable C options mk bs w0 (fst (process_configuration C options ?g c (w, n, f)))"
    using Cons.prems assms by (intro reachable.step) simp_all
  then have "reachable C options mk bs w0 w1" by (simp add: p)
  then show ?case using Cons.IH [of w1 n1 f1] Cons.prems(2) by (simp add: p)
qed

lemma enumerate_batches_reachable:
  "reachable C options mk bs w0 w \<Longrightarrow> set bs' \<subseteq> set bs \<Longrightarrow>
   reachable C options mk bs w0 (fst (enumerate_batches C options mk bs' (w, log)))"
proof (induction bs' arbitrary: w log)
  case Nil
  then show ?case by simp
next
  case (Cons nv bs')
  let ?e = "mk (fst nv) (snd nv)"
  obtain w1 n1 f1 where
    l: "enumerate_loop C options (is_guaranteed_for_database_insert ?e)
          (configurations ?e) (w, 0, 0) = (w1, n1, f1)"
    by (cases "enumerate_loop C options (is_guaranteed_for_database_insert ?e)
          (configurations ?e) (w, 0, 0)") auto
  have "(fst nv, snd nv) \<in> set bs" using Cons.prems(2) by simp
  from enumerate_loop_reachable [OF this Cons.prems(1), of "configurations ?e" 0 0]
  have "reachable C options mk bs w0 w1" by (simp add: l)
  then show ?case using Cons.IH [of w1] Cons.prems(2) by (simp add: l)
qed

lemma entries_final_stores:
  "entries (supercell_db (final_stores (enumerate_configurations C options mk bs w0)))
     = entries (supercell_db (fst (enumerate_batches C options mk bs
         (w0, [LogNumConfigs (dry_run options) (db_size (configuration_db w0))]))))"
  "entries (configuration_db (final_stores (enumerate_configurations C options mk bs w0)))
     = entries (configuration_db (fst (enumerate_batches C options mk bs
         (w0, [LogNumConfigs (dry_run options) (db_size (configuration_db w0))]))))"
  by (auto simp: enumerate_configurations_def Let_def case_prod_beta db_commit_def
        split: sum.splits)

text \<open>
  C9, amended. When every entry of the object-store references a registered cell at
  the start, and every configuration that takes the direct-insert branch lies in a
  cell registered at the start, the same holds in every state the run reaches and in
  its final stores. The branch through \<open>make_canonical_and_insert\<close> registers the cell
  before it inserts; the direct-insert branch registers nothing.
\<close>

theorem cells_registered_when_direct_inserts_are:
  assumes "cells_registered C w0" and "direct_inserts_registered C mk bs w0"
  shows "(\<forall>w. reachable C options mk bs w0 w \<longrightarrow> cells_registered C w)
       \<and> cells_registered C (final_stores (enumerate_configurations C options mk bs w0))"
proof -
  let ?w = "fst (enumerate_batches C options mk bs
         (w0, [LogNumConfigs (dry_run options) (db_size (configuration_db w0))]))"
  have r: "\<forall>w. reachable C options mk bs w0 w \<longrightarrow> cells_registered C w"
    using reachable_registered [OF assms] by blast
  have "reachable C options mk bs w0 ?w"
    by (rule enumerate_batches_reachable [OF reachable.start]) simp
  then have "cells_registered C ?w" using r by blast
  then have "cells_registered C (final_stores (enumerate_configurations C options mk bs w0))"
    by (simp add: cells_registered_def entries_final_stores)
  with r show ?thesis by simp
qed

theorem cells_registered_when_direct_inserts_are_witness:
  "cells_registered pair_ops (cell2_stores True)
   \<and> direct_inserts_registered pair_ops example_enumerator [(''scel2'', True)] (cell2_stores True)
   \<and> cells_registered pair_ops
       (final_stores (enumerate_configurations pair_ops example_options example_enumerator
          [(''scel2'', True)] (cell2_stores True)))"
proof -
  have h1: "cells_registered pair_ops (cell2_stores True)"
    by (simp add: cells_registered_def cell2_stores_def)
  have h2: "direct_inserts_registered pair_ops example_enumerator [(''scel2'', True)]
              (cell2_stores True)"
    by (simp add: direct_inserts_registered_def cell2_stores_def example_enumerator_def
          pair_ops_def)
  from cells_registered_when_direct_inserts_are [OF h1 h2, of example_options] h1 h2
  show ?thesis by simp
qed

text \<open>
  C9, as stated, fails: an enumerator guaranteed for database insert yields
  configurations of cell 2 while the cell-store is empty; they are inserted by
  \<open>configuration_db.insert(configuration)\<close> alone, and the cell-store stays empty.
\<close>

theorem direct_insert_counterexample:
  "\<not> cells_registered pair_ops
       (final_stores (enumerate_configurations pair_ops example_options example_enumerator
          [(''scel2'', True)] empty_stores))"
  by (auto simp: cells_registered_def enumerate_configurations_def process_configuration_def
        db_insert_def db_size_def db_commit_def pair_ops_def example_options_def
        example_enumerator_def empty_stores_def empty_db_def Let_def)

end
